theory Spec2Isabelle
  imports Main "HOL-Library.Sublist" "HOL-Library.AList"
begin

section \<open>Strings and integers as Python sees them\<close>

text \<open>
  Source strings are modelled as ASCII byte strings (\<^typ>\<open>string\<close>). The Python test
  \<^verbatim>\<open>pat in s\<close> on strings is the contiguous-sublist relation \<^const>\<open>sublist\<close>.
\<close>

definition to_lower :: "char \<Rightarrow> char" where
  "to_lower c =
     (let n = (of_char c :: nat) in if 65 \<le> n \<and> n \<le> 90 then char_of (n + 32) else c)"

definition lower :: "string \<Rightarrow> string" where
  "lower s = map to_lower s"

text \<open>
  The blanks that \<^verbatim>\<open>int\<close> strips from an ASCII string: tab, line feed, vertical tab, form
  feed, carriage return and space. The separators 28 to 31 are not among them.
\<close>

definition is_space :: "char \<Rightarrow> bool" where
  "is_space c = (let n = (of_char c :: nat) in (9 \<le> n \<and> n \<le> 13) \<or> n = 32)"

definition is_digit :: "char \<Rightarrow> bool" where
  "is_digit c = (let n = (of_char c :: nat) in 48 \<le> n \<and> n \<le> 57)"

definition digit_val :: "char \<Rightarrow> nat" where
  "digit_val c = (of_char c :: nat) - 48"

text \<open>
  The digits of a Python integer literal after the first digit: further digits, each
  optionally preceded by one underscore. \<open>acc\<close> is the value read so far.
\<close>

fun py_digits :: "nat \<Rightarrow> string \<Rightarrow> nat option" where
  "py_digits acc [] = Some acc"
| "py_digits acc [c] = (if is_digit c then Some (10 * acc + digit_val c) else None)"
| "py_digits acc (c # d # ds) =
     (if is_digit c then py_digits (10 * acc + digit_val c) (d # ds)
      else if c = CHR ''_'' \<and> is_digit d then py_digits (10 * acc + digit_val d) ds
      else None)"

text \<open>
  CPython refuses to convert a decimal string of more than 4300 digits (the default of
  \<^verbatim>\<open>sys.int_max_str_digits\<close>); underscores and the sign are not counted.
\<close>

definition int_max_str_digits :: nat where
  "int_max_str_digits = 4300"

text \<open>
  \<^verbatim>\<open>int(s)\<close> for a string: surrounding blanks are stripped, one sign is allowed, then
  decimal digits, at most \<^const>\<open>int_max_str_digits\<close> of them. \<open>None\<close> is the \<^verbatim>\<open>ValueError\<close>.
\<close>

definition py_int :: "string \<Rightarrow> int option" where
  "py_int s =
     (let t = rev (dropWhile is_space (rev (dropWhile is_space s)));
          neg = (case t of [] \<Rightarrow> False | c # _ \<Rightarrow> c = CHR ''-'');
          ds = (case t of [] \<Rightarrow> [] | c # cs \<Rightarrow> if c = CHR ''-'' \<or> c = CHR ''+'' then cs else t)
      in case ds of
           [] \<Rightarrow> None
         | d # rest \<Rightarrow>
             if is_digit d \<and> length (filter is_digit ds) \<le> int_max_str_digits
             then map_option (\<lambda>n. if neg then - int n else int n) (py_digits (digit_val d) rest)
             else None)"

text \<open>\<^verbatim>\<open>str(n)\<close> for a non-negative integer, as an f-string renders it.\<close>

function str_nat :: "nat \<Rightarrow> string" where
  "str_nat n =
     (if n < 10 then [''0123456789'' ! n]
      else str_nat (n div 10) @ [''0123456789'' ! (n mod 10)])"
  by pat_completeness auto
termination
  by (relation "measure id") auto

declare str_nat.simps [simp del]

section \<open>The browser document, the network and the save folder\<close>

text \<open>
  An image element, as \<^verbatim>\<open>get_attribute\<close> reports it: each attribute is a string or
  \<^verbatim>\<open>None\<close>.
\<close>

record img =
  src :: "string option"
  width :: "string option"
  height :: "string option"

text \<open>
  The answer of \<^verbatim>\<open>requests.get(url, timeout=10)\<close>: an exception (timeout, connection
  failure) or a response with its status code and body.
\<close>

datatype response = Transport_error | Response nat string

text \<open>
  What one harvest pass reads from outside the program: the digest function of
  \<^verbatim>\<open>hashlib\<close>, the HTTP client, the clock (milliseconds, read when image \<open>idx\<close> is
  named), whether an image file of a given name can be opened and written, and whether
  the ledger file can be opened and appended to when image \<open>idx\<close> is recorded.
\<close>

record env =
  md5_hexdigest :: "string \<Rightarrow> string"
  requests_get :: "string \<Rightarrow> response"
  time_ms :: "nat \<Rightarrow> nat"
  writable :: "string \<Rightarrow> bool"
  appendable :: "nat \<Rightarrow> bool"

text \<open>
  The save folder and the network log: the image files (name and content), the lines of
  \<^verbatim>\<open>downloaded_hashes.txt\<close> (\<open>None\<close> while the file does not exist) and the addresses
  requested so far, in order.
\<close>

record world =
  files :: "(string \<times> string) list"
  hash_file :: "string list option"
  fetched :: "string list"

section \<open>download_image and get_image_hash\<close>

definition download_image :: "env \<Rightarrow> string \<Rightarrow> string \<Rightarrow> world \<Rightarrow> bool \<times> world" where
  "download_image e url filename w =
     (let w1 = w\<lparr>fetched := fetched w @ [url]\<rparr> in
      case requests_get e url of
        Transport_error \<Rightarrow> (False, w1)
      | Response status_code content \<Rightarrow>
          if status_code = 200 then
            (if writable e filename
             then (True, w1\<lparr>files := AList.update filename content (files w1)\<rparr>)
             else (False, w1))
          else (False, w1))"

definition get_image_hash :: "env \<Rightarrow> string \<Rightarrow> string" where
  "get_image_hash e url = md5_hexdigest e url"

section \<open>download_loaded_images\<close>

text \<open>The XPath query \<^verbatim>\<open>//img[contains(@src, 'http')]\<close> over the rendered images.\<close>

definition matches_xpath :: "img \<Rightarrow> bool" where
  "matches_xpath i = (case src i of None \<Rightarrow> False | Some s \<Rightarrow> sublist ''http'' s)"

definition find_elements_img :: "img list \<Rightarrow> img list" where
  "find_elements_img doc = filter matches_xpath doc"

text \<open>Line 116: \<^verbatim>\<open>not src or 'blob:' in src or 'data:' in src\<close>.\<close>

definition invalid_src :: "img \<Rightarrow> bool" where
  "invalid_src i =
     (case src i of
        None \<Rightarrow> True
      | Some s \<Rightarrow> s = [] \<or> sublist ''blob:'' s \<or> sublist ''data:'' s)"

text \<open>
  Lines 120 to 126: whether the \<^verbatim>\<open>continue\<close> of the dimension rule is taken. The
  condition is evaluated left to right and \<^verbatim>\<open>or\<close> stops at the first true operand; a
  \<^verbatim>\<open>ValueError\<close> of \<^verbatim>\<open>int\<close> leaves the \<^verbatim>\<open>try\<close> block through \<^verbatim>\<open>except: pass\<close>.
\<close>

definition small_image :: "img \<Rightarrow> bool" where
  "small_image i =
     (case width i of
        None \<Rightarrow> False
      | Some w \<Rightarrow>
          (case height i of
             None \<Rightarrow> False
           | Some h \<Rightarrow>
               if w = [] \<or> h = [] then False
               else (case py_int w of
                       None \<Rightarrow> False
                     | Some a \<Rightarrow>
                         if a < 50 then True
                         else (case py_int h of None \<Rightarrow> False | Some b \<Rightarrow> b < 50))))"

text \<open>Lines 136 to 140: the file extension.\<close>

definition extension :: "string \<Rightarrow> string" where
  "extension s =
     (if sublist ''.png'' (lower s) then ''png''
      else if sublist ''.gif'' (lower s) then ''gif''
      else ''jpg'')"

definition image_filename :: "env \<Rightarrow> nat \<Rightarrow> string \<Rightarrow> string" where
  "image_filename e idx s =
     ''img_'' @ str_nat (time_ms e idx) @ ''_'' @ str_nat idx @ ''.'' @ extension s"


text \<open>The local variables of a pass, with the folder it writes to.\<close>

record pass =
  downloaded_hashes :: "string set"
  download_count :: nat
  store :: world

text \<open>A ledger append that goes through: the file exists afterwards, one line longer.\<close>

definition append_line :: "string \<Rightarrow> string list option \<Rightarrow> string list option" where
  "append_line h f = Some ((case f of None \<Rightarrow> [] | Some ls \<Rightarrow> ls) @ [h])"

text \<open>
  The body of the loop over \<^verbatim>\<open>enumerate(images)\<close>; each \<^verbatim>\<open>continue\<close> returns the state.
  After a download the set and the count are updated (lines 146 and 147) before the
  ledger file is opened (line 150); when that append raises, the handler of line 155
  swallows the error, so the set and the count keep the new hash and the file keeps its
  old lines.
\<close>

definition process_image :: "env \<Rightarrow> nat \<times> img \<Rightarrow> pass \<Rightarrow> pass" where
  "process_image e p st =
     (let idx = fst p; i = snd p in
      if invalid_src i then st
      else if small_image i then st
      else
        let s = the (src i); img_hash = get_image_hash e s in
        if img_hash \<in> downloaded_hashes st then st
        else
          (case download_image e s (image_filename e idx s) (store st) of
             (True, w') \<Rightarrow>
               st\<lparr>downloaded_hashes := insert img_hash (downloaded_hashes st),
                  download_count := download_count st + 1,
                  store := (if appendable e idx
                            then w'\<lparr>hash_file := append_line img_hash (hash_file w')\<rparr>
                            else w')\<rparr>
           | (False, w') \<Rightarrow> st\<lparr>store := w'\<rparr>))"

fun harvest_loop :: "env \<Rightarrow> (nat \<times> img) list \<Rightarrow> pass \<Rightarrow> pass" where
  "harvest_loop e [] st = st"
| "harvest_loop e (p # ps) st = harvest_loop e ps (process_image e p st)"

definition ledger_lines :: "world \<Rightarrow> string list" where
  "ledger_lines w = (case hash_file w of None \<Rightarrow> [] | Some ls \<Rightarrow> ls)"

definition download_loaded_images :: "env \<Rightarrow> img list \<Rightarrow> world \<Rightarrow> nat \<times> world" where
  "download_loaded_images e doc w =
     (let images = find_elements_img doc;
          st0 = \<lparr>downloaded_hashes = set (ledger_lines w), download_count = 0, store = w\<rparr>;
          st = harvest_loop e (enumerate 0 images) st0
      in (download_count st, store st))"

section \<open>get_message_container\<close>

text \<open>
  A node matching the container fingerprint, as the two \<^verbatim>\<open>execute_script\<close> reads of
  lines 59 and 60 report it: a height, or \<open>None\<close> when the read raises.
\<close>

record node =
  scroll_height :: "int option"
  client_height :: "int option"

text \<open>The loop of lines 57 to 65; a read that raises moves on to the next node.\<close>

fun scan_containers :: "node list \<Rightarrow> node option" where
  "scan_containers [] = None"
| "scan_containers (c # cs) =
     (case scroll_height c of
        None \<Rightarrow> scan_containers cs
      | Some sh \<Rightarrow>
          (case client_height c of
             None \<Rightarrow> scan_containers cs
           | Some ch \<Rightarrow> if sh > ch then Some c else scan_containers cs))"

definition get_message_container :: "node list \<Rightarrow> node option" where
  "get_message_container containers =
     (case scan_containers containers of
        Some c \<Rightarrow> Some c
      | None \<Rightarrow> (case containers of [] \<Rightarrow> None | c # _ \<Rightarrow> Some c))"

section \<open>scroll_until_date\<close>

text \<open>
  What one iteration of the scroll loop observes. \<open>Lost\<close>: \<^verbatim>\<open>get_message_container\<close>
  returned \<^verbatim>\<open>None\<close> at line 193. \<open>Fault\<close>: a driver call of lines 193 to 216 raised, so
  the handlers of lines 240 to 245 run. \<open>Sample h h' top\<close>: the reads returned
  \<^verbatim>\<open>current_scroll_height = h\<close>, \<^verbatim>\<open>new_scroll_height = h'\<close> and \<^verbatim>\<open>new_scroll_top = top\<close>
  (\<^verbatim>\<open>current_scroll_top\<close> is only printed).
\<close>

datatype probe = Lost | Fault | Sample int int int

text \<open>
  An iteration also fixes the images rendered and the network at the moment a harvest pass
  would run.
\<close>

record tick =
  probe :: probe
  page :: "img list"
  net :: env

record session =
  initial_nodes :: "node list"
  initial_reads :: bool
  ticks :: "nat \<Rightarrow> tick"

datatype error = WebDriverException

datatype control = Continue | Break | Return bool

record scroll =
  no_change_count :: nat
  saved :: world

text \<open>The body of the \<^verbatim>\<open>for\<close> loop, lines 191 to 245.\<close>

definition scroll_step :: "bool \<Rightarrow> tick \<Rightarrow> scroll \<Rightarrow> control \<times> scroll" where
  "scroll_step download_images t st =
     (case probe t of
        Lost \<Rightarrow> (Break, st)
      | Fault \<Rightarrow> (Continue, st)
      | Sample current_scroll_height new_scroll_height new_scroll_top \<Rightarrow>
          if new_scroll_height > current_scroll_height then
            (Continue,
             st\<lparr>no_change_count := 0,
                saved := (if download_images
                          then snd (download_loaded_images (net t) (page t) (saved st))
                          else saved st)\<rparr>)
          else if new_scroll_top = 0 \<and> new_scroll_height = current_scroll_height then
            (if no_change_count st + 1 \<ge> 3 then Return True else Continue,
             st\<lparr>no_change_count := no_change_count st + 1\<rparr>)
          else (Continue, st\<lparr>no_change_count := 0\<rparr>))"

text \<open>The loop over \<^verbatim>\<open>range(max_scrolls)\<close>; running out of iterations returns \<^verbatim>\<open>False\<close>.\<close>

fun scroll_loop :: "bool \<Rightarrow> tick list \<Rightarrow> scroll \<Rightarrow> bool \<times> scroll" where
  "scroll_loop d [] st = (False, st)"
| "scroll_loop d (t # ts) st =
     (case scroll_step d t st of
        (Continue, st') \<Rightarrow> scroll_loop d ts st'
      | (Break, st') \<Rightarrow> (False, st')
      | (Return b, st') \<Rightarrow> (b, st'))"

text \<open>
  The values \<^verbatim>\<open>no_change_count\<close> holds at the end of each iteration the loop executes.
\<close>

fun stall_trace :: "bool \<Rightarrow> tick list \<Rightarrow> scroll \<Rightarrow> nat list" where
  "stall_trace d [] st = []"
| "stall_trace d (t # ts) st =
     (case scroll_step d t st of
        (Continue, st') \<Rightarrow> no_change_count st' # stall_trace d ts st'
      | (Break, st') \<Rightarrow> [no_change_count st']
      | (Return b, st') \<Rightarrow> [no_change_count st'])"

text \<open>
  The unused parameter \<^verbatim>\<open>target_date\<close> is left out. A raise of the reads of lines 178 to
  180 leaves the function as an exception.
\<close>

definition scroll_until_date ::
  "session \<Rightarrow> int \<Rightarrow> bool \<Rightarrow> world \<Rightarrow> error + (bool \<times> world)" where
  "scroll_until_date s max_scrolls download_images w =
     (case get_message_container (initial_nodes s) of
        None \<Rightarrow> Inr (False, w)
      | Some _ \<Rightarrow>
          if \<not> initial_reads s then Inl WebDriverException
          else
            (case scroll_loop download_images (map (ticks s) [0..<nat max_scrolls])
                    \<lparr>no_change_count = 0, saved = w\<rparr> of
               (b, st) \<Rightarrow> Inr (b, saved st)))"

section \<open>The properties in the specification's words\<close>

text \<open>A node overflows when its scrollable height exceeds its visible height.\<close>

definition overflows :: "node \<Rightarrow> bool" where
  "overflows c =
     (case scroll_height c of
        None \<Rightarrow> False
      | Some sh \<Rightarrow> (case client_height c of None \<Rightarrow> False | Some ch \<Rightarrow> ch < sh))"

text \<open>
  The stall counter as the specification describes it: a sample whose height is unchanged
  at offset 0 adds one, any other sample resets it; an iteration without a sample leaves
  it alone.
\<close>

fun stall_rule :: "nat \<Rightarrow> probe \<Rightarrow> nat" where
  "stall_rule c (Sample pre post off) = (if post = pre \<and> off = 0 then c + 1 else 0)"
| "stall_rule c Lost = c"
| "stall_rule c Fault = c"

definition stall_count :: "probe list \<Rightarrow> nat" where
  "stall_count ps = foldl stall_rule 0 ps"

text \<open>
  A candidate is accepted for further processing when the XPath query returns it and the
  test of line 116 lets it pass.
\<close>

definition accepted_source :: "img \<Rightarrow> bool" where
  "accepted_source i = (matches_xpath i \<and> \<not> invalid_src i)"



text \<open>
  A dimension is declared when the attribute is there and not empty; its integer value is
  what \<^verbatim>\<open>int\<close> makes of it, if anything.
\<close>

definition declared :: "string option \<Rightarrow> bool" where
  "declared a = (case a of None \<Rightarrow> False | Some s \<Rightarrow> s \<noteq> [])"

definition declared_int :: "string option \<Rightarrow> int option" where
  "declared_int a = (case a of None \<Rightarrow> None | Some s \<Rightarrow> py_int s)"


section \<open>Concrete inputs\<close>

text \<open>
  Three environments: in \<open>online\<close> every request is answered with status 200 and every
  write goes through; \<open>offline\<close> differs in that every request is answered with status 500;
  \<open>readonly\<close> differs from \<open>online\<close> in that the ledger file cannot be appended to. The digest
  is left symbolic in the theorems; the concrete inputs take the identity for it, which
  separates all addresses.
\<close>

definition online :: env where
  "online = \<lparr>md5_hexdigest = (\<lambda>s. s), requests_get = (\<lambda>u. Response 200 ''bytes''),
             time_ms = (\<lambda>idx. 7), writable = (\<lambda>f. True), appendable = (\<lambda>idx. True)\<rparr>"

definition offline :: env where
  "offline = \<lparr>md5_hexdigest = (\<lambda>s. s), requests_get = (\<lambda>u. Response 500 []),
              time_ms = (\<lambda>idx. 7), writable = (\<lambda>f. True), appendable = (\<lambda>idx. True)\<rparr>"


definition empty_folder :: world where
  "empty_folder = \<lparr>files = [], hash_file = None, fetched = []\<rparr>"

definition picture :: "string \<Rightarrow> img" where
  "picture s = \<lparr>src = Some s, width = None, height = None\<rparr>"

definition sized :: "string \<Rightarrow> string \<Rightarrow> img" where
  "sized w h = \<lparr>src = Some ''https://cdn.example/p.jpg'', width = Some w, height = Some h\<rparr>"

definition still_tick :: tick where
  "still_tick = \<lparr>probe = Sample 1000 1000 0, page = [], net = offline\<rparr>"

definition still_session :: session where
  "still_session =
     \<lparr>initial_nodes = [\<lparr>scroll_height = Some 1000, client_height = Some 600\<rparr>],
      initial_reads = True,
      ticks = (\<lambda>i. still_tick)\<rparr>"

section \<open>Facts about the scroll loop\<close>

lemma scroll_step_count:
  "no_change_count (snd (scroll_step d t st)) = stall_rule (no_change_count st) (probe t)"
  by (simp add: scroll_step_def split: probe.splits)

lemma stall_trace_length: "length (stall_trace d ts st) \<le> length ts"
  by (induction ts arbitrary: st) (auto split: prod.splits control.splits)

lemma stall_trace_nth:
  "k < length (stall_trace d ts st) \<Longrightarrow>
   stall_trace d ts st ! k =
     stall_rule ((no_change_count st # stall_trace d ts st) ! k) (probe (ts ! k))"
proof (induction ts arbitrary: st k)
  case Nil
  then show ?case by simp
next
  case (Cons t ts)
  obtain c st' where step: "scroll_step d t st = (c, st')"
    by (cases "scroll_step d t st")
  have cnt: "no_change_count st' = stall_rule (no_change_count st) (probe t)"
    using scroll_step_count [of d t st] step by simp
  show ?case
  proof (cases k)
    case 0
    then show ?thesis using step cnt by (cases c) simp_all
  next
    case (Suc j)
    with Cons.prems step have c: "c = Continue" and j: "j < length (stall_trace d ts st')"
      by (cases c; simp)+
    from Cons.IH [OF j] show ?thesis using Suc step c by simp
  qed
qed

lemma scroll_loop_result:
  "no_change_count st < 3 \<Longrightarrow>
   fst (scroll_loop d ts st) \<longleftrightarrow>
     (\<exists>k\<le>length ts. foldl stall_rule (no_change_count st) (map probe (take k ts)) = 3
        \<and> Lost \<notin> set (map probe (take k ts)))"
proof (induction ts arbitrary: st)
  case Nil
  then show ?case by simp
next
  case (Cons t ts)
  obtain c st' where step: "scroll_step d t st = (c, st')"
    by (cases "scroll_step d t st")
  have cnt: "no_change_count st' = stall_rule (no_change_count st) (probe t)"
    using scroll_step_count [of d t st] step by simp
  let ?R = "\<lambda>c0 us. \<exists>k\<le>length us. foldl stall_rule c0 (map probe (take k us)) = 3
        \<and> Lost \<notin> set (map probe (take k us))"
  have split: "?R (no_change_count st) (t # ts) \<longleftrightarrow>
      (probe t \<noteq> Lost \<and> ?R (no_change_count st') ts)"
    (is "?A \<longleftrightarrow> ?B")
  proof
    assume ?A
    then obtain k where k: "k \<le> length (t # ts)"
       "foldl stall_rule (no_change_count st) (map probe (take k (t # ts))) = 3"
       "Lost \<notin> set (map probe (take k (t # ts)))" by blast
    from k(2) Cons.prems obtain j where j: "k = Suc j" by (cases k) auto
    with k cnt show ?B by (intro conjI exI [of _ j]) auto
  next
    assume ?B
    then obtain j where "j \<le> length ts"
       "foldl stall_rule (no_change_count st') (map probe (take j ts)) = 3"
       "Lost \<notin> set (map probe (take j ts))" "probe t \<noteq> Lost" by blast
    with cnt show ?A by (intro exI [of _ "Suc j"]) auto
  qed
  show ?case
  proof (cases c)
    case Continue
    with step have nl: "probe t \<noteq> Lost" and lt: "no_change_count st' < 3"
      using Cons.prems by (auto simp: scroll_step_def split: probe.splits if_splits)
    from Cons.IH [OF lt] show ?thesis using step Continue split nl by simp
  next
    case Break
    with step have "probe t = Lost"
      by (auto simp: scroll_step_def split: probe.splits if_splits)
    then show ?thesis using step Break split by simp
  next
    case (Return b)
    with step have "b" "probe t \<noteq> Lost" "no_change_count st' = 3"
      using Cons.prems by (auto simp: scroll_step_def split: probe.splits if_splits)
    then have "?R (no_change_count st') ts" by (intro exI [of _ 0]) simp
    then show ?thesis using step Return split \<open>b\<close> \<open>probe t \<noteq> Lost\<close> by simp
  qed
qed

section \<open>Facts about one harvest pass\<close>

lemma enumerate_member: "p \<in> set (enumerate n xs) \<Longrightarrow> snd p \<in> set xs"
  by (metis enumerate_eq_zip set_zip_rightD prod.collapse)


lemma download_image_fetched:
  "fetched (snd (download_image e s f w)) = fetched w @ [s]"
  by (simp add: download_image_def Let_def split: response.splits)




lemma process_image_skip:
  "invalid_src i \<or> small_image i \<or> get_image_hash e (the (src i)) \<in> downloaded_hashes st \<Longrightarrow>
   process_image e (idx, i) st = st"
  by (auto simp: process_image_def Let_def)

lemma process_image_attempt:
  assumes "\<not> invalid_src i" "\<not> small_image i"
    "get_image_hash e (the (src i)) \<notin> downloaded_hashes st"
  shows "process_image e (idx, i) st =
     (let s = the (src i); h = get_image_hash e s;
          r = download_image e s (image_filename e idx s) (store st) in
      if fst r
      then st\<lparr>downloaded_hashes := insert h (downloaded_hashes st),
              download_count := download_count st + 1,
              store := (if appendable e idx
                        then (snd r)\<lparr>hash_file := append_line h (hash_file (snd r))\<rparr>
                        else snd r)\<rparr>
      else st\<lparr>store := snd r\<rparr>)"
  using assms by (auto simp: process_image_def Let_def split: prod.splits bool.splits)

lemma process_image_downloads:
  assumes "\<not> invalid_src i" "\<not> small_image i" "src i = Some s"
    "get_image_hash e s \<notin> downloaded_hashes st"
    "requests_get e s = Response 200 body" "writable e (image_filename e idx s)"
  shows "process_image e (idx, i) st =
     st\<lparr>downloaded_hashes := insert (get_image_hash e s) (downloaded_hashes st),
        download_count := download_count st + 1,
        store := (store st)\<lparr>fetched := fetched (store st) @ [s],
                   files := AList.update (image_filename e idx s) body (files (store st)),
                   hash_file := (if appendable e idx
                                 then Some (ledger_lines (store st) @ [get_image_hash e s])
                                 else hash_file (store st))\<rparr>\<rparr>"
  using assms
  by (simp add: process_image_def Let_def download_image_def append_line_def ledger_lines_def
      split: option.splits)


















lemma harvest_loop_fetched:
  "\<exists>us. fetched (store (harvest_loop e ps st)) = fetched (store st) @ us \<and>
     (\<forall>u\<in>set us. \<exists>p\<in>set ps. src (snd p) = Some u \<and> \<not> invalid_src (snd p))"
proof (induction ps arbitrary: st)
  case Nil
  then show ?case by simp
next
  case (Cons q qs)
  obtain idx i where q: "q = (idx, i)" by (cases q)
  let ?st' = "process_image e q st"
  from Cons.IH [of ?st'] obtain us where
    us: "fetched (store (harvest_loop e qs ?st')) = fetched (store ?st') @ us"
        "\<forall>u\<in>set us. \<exists>p\<in>set qs. src (snd p) = Some u \<and> \<not> invalid_src (snd p)"
    by blast
  show ?case
  proof (cases "invalid_src i \<or> small_image i \<or>
      get_image_hash e (the (src i)) \<in> downloaded_hashes st")
    case True
    then have "?st' = st" unfolding q by (rule process_image_skip)
    then show ?thesis using us by (intro exI [of _ us]) auto
  next
    case False
    then obtain s where s: "src i = Some s"
      by (cases "src i") (auto simp: invalid_src_def)
    have "fetched (store ?st') = fetched (store st) @ [s]"
      using False s unfolding q
      by (simp add: process_image_attempt Let_def download_image_fetched)
    then show ?thesis using us s False q
      by (intro exI [of _ "s # us"]) auto
  qed
qed

lemma py_int_empty: "py_int [] = None"
  by (simp add: py_int_def)

text \<open>
  Two strings that \<^verbatim>\<open>int\<close> refuses: a digit string behind the separator byte 28, and 4301
  zeros.
\<close>

lemma py_int_separator: "py_int [CHR 0x1C, CHR ''2'', CHR ''0''] = None"
  by code_simp

lemma py_int_too_long: "py_int (replicate 4301 (CHR ''0'')) = None"
proof -
  have d: "is_digit (CHR ''0'')" by (simp add: is_digit_def)
  have s: "\<not> is_space (CHR ''0'')" by (simp add: is_space_def)
  have r: "replicate 4301 (CHR ''0'') = CHR ''0'' # replicate 4300 (CHR ''0'')"
    by (simp add: replicate_Suc [symmetric] del: replicate_Suc)
  have n: "dropWhile is_space (replicate 4301 (CHR ''0'')) = replicate 4301 (CHR ''0'')"
    unfolding r using s by simp
  show ?thesis
    unfolding py_int_def n Let_def rev_replicate
    unfolding n rev_replicate
    unfolding r
    using d by (simp add: int_max_str_digits_def)
qed

lemma scan_containers_find: "scan_containers cs = find overflows cs"
  by (induction cs) (auto simp: overflows_def split: option.splits)

section \<open>The claims\<close>

subsection \<open>C1: the stall counter\<close>

text \<open>
  Claim C1. Along every sequence of iterations, the value of \<^verbatim>\<open>no_change_count\<close> at the end
  of iteration \<open>k\<close> is one more than the value before it exactly when the sample of that
  iteration has its post-height equal to its pre-height and its offset equal to 0; every
  other sample sets it to zero. (An iteration that produced no sample leaves it as it
  was.)
\<close>

theorem stall_counter_rule:
  assumes "k < length (stall_trace d ts st)"
  shows "k < length ts \<and>
         stall_trace d ts st ! k =
           (let before = (no_change_count st # stall_trace d ts st) ! k in
            case probe (ts ! k) of
              Sample pre post off \<Rightarrow> if post = pre \<and> off = 0 then before + 1 else 0
            | Lost \<Rightarrow> before
            | Fault \<Rightarrow> before)"
proof -
  have "k < length ts" using assms stall_trace_length [of d ts st] by simp
  moreover have "stall_trace d ts st ! k =
     stall_rule ((no_change_count st # stall_trace d ts st) ! k) (probe (ts ! k))"
    using assms by (rule stall_trace_nth)
  ultimately show ?thesis by (simp add: Let_def split: probe.splits)
qed

text \<open>
  The first scenario of the specification: the height stays at 1000 with offset 0, and the
  third iteration ends with the counter at 3.
\<close>

theorem stall_counter_rule_witness:
  "(2::nat) < length (stall_trace False [still_tick, still_tick, still_tick, still_tick]
       \<lparr>no_change_count = 0, saved = empty_folder\<rparr>) \<and>
   stall_trace False [still_tick, still_tick, still_tick, still_tick]
       \<lparr>no_change_count = 0, saved = empty_folder\<rparr> ! 2 = 3"
proof -
  let ?ts = "[still_tick, still_tick, still_tick, still_tick]"
  let ?st = "\<lparr>no_change_count = 0, saved = empty_folder\<rparr>"
  have t: "stall_trace False ?ts ?st = [1, 2, 3]" by code_simp
  have h: "2 < length (stall_trace False ?ts ?st)" unfolding t by simp
  from stall_counter_rule [OF h] show ?thesis
    using h unfolding t by (simp add: still_tick_def)
qed

subsection \<open>C2: the result of scroll_until_date\<close>

text \<open>
  Claim C2. For every sequence of observations and every \<^verbatim>\<open>max_scrolls\<close>, once the
  container is found and the initial reads return, \<^verbatim>\<open>scroll_until_date\<close> returns, and it
  returns \<^verbatim>\<open>True\<close> exactly when the stall counter reaches 3 within the first
  \<^verbatim>\<open>max_scrolls\<close> iterations (the loop still running, that is, the container not lost
  before); otherwise it returns \<^verbatim>\<open>False\<close>.
\<close>

theorem scroll_until_date_result:
  assumes "initial_reads s"
  shows "map_sum id fst (scroll_until_date s max_scrolls d w) =
     Inr (get_message_container (initial_nodes s) \<noteq> None \<and>
          (\<exists>k\<le>nat max_scrolls.
             stall_count (map (\<lambda>i. probe (ticks s i)) [0..<k]) = 3 \<and>
             Lost \<notin> set (map (\<lambda>i. probe (ticks s i)) [0..<k])))"
proof (cases "get_message_container (initial_nodes s)")
  case None
  then show ?thesis by (simp add: scroll_until_date_def)
next
  case (Some c)
  let ?ts = "map (ticks s) [0..<nat max_scrolls]"
  let ?st = "\<lparr>no_change_count = 0, saved = w\<rparr>"
  have tk: "map probe (take k ?ts) = map (\<lambda>i. probe (ticks s i)) [0..<k]"
    if "k \<le> nat max_scrolls" for k
    using that by (simp add: take_map take_upt)
  have "fst (scroll_loop d ?ts ?st) \<longleftrightarrow>
     (\<exists>k\<le>length ?ts. foldl stall_rule (no_change_count ?st) (map probe (take k ?ts)) = 3
        \<and> Lost \<notin> set (map probe (take k ?ts)))"
    by (rule scroll_loop_result) simp
  also have "\<dots> \<longleftrightarrow> (\<exists>k\<le>nat max_scrolls.
             stall_count (map (\<lambda>i. probe (ticks s i)) [0..<k]) = 3 \<and>
             Lost \<notin> set (map (\<lambda>i. probe (ticks s i)) [0..<k]))"
  proof -
    have "(foldl stall_rule (no_change_count ?st) (map probe (take k ?ts)) = 3
            \<and> Lost \<notin> set (map probe (take k ?ts))) \<longleftrightarrow>
          (stall_count (map (\<lambda>i. probe (ticks s i)) [0..<k]) = 3 \<and>
             Lost \<notin> set (map (\<lambda>i. probe (ticks s i)) [0..<k]))"
      if "k \<le> nat max_scrolls" for k
      unfolding tk [OF that] stall_count_def by simp
    moreover have "length ?ts = nat max_scrolls" by simp
    ultimately show ?thesis by metis
  qed
  finally have r: "fst (scroll_loop d ?ts ?st) \<longleftrightarrow> (\<exists>k\<le>nat max_scrolls.
             stall_count (map (\<lambda>i. probe (ticks s i)) [0..<k]) = 3 \<and>
             Lost \<notin> set (map (\<lambda>i. probe (ticks s i)) [0..<k]))" .
  obtain b st' where l: "scroll_loop d ?ts ?st = (b, st')"
    by (cases "scroll_loop d ?ts ?st")
  from r l have "b \<longleftrightarrow> (\<exists>k\<le>nat max_scrolls.
             stall_count (map (\<lambda>i. probe (ticks s i)) [0..<k]) = 3 \<and>
             Lost \<notin> set (map (\<lambda>i. probe (ticks s i)) [0..<k]))" by simp
  then show ?thesis using Some assms l
    by (simp add: scroll_until_date_def)
qed

text \<open>
  With the height unchanged at offset 0 in every iteration and a budget of 100, the result
  is \<^verbatim>\<open>True\<close>.
\<close>

theorem scroll_until_date_result_witness:
  "initial_reads still_session \<and>
   map_sum id fst (scroll_until_date still_session 100 False empty_folder) = Inr True"
proof -
  have h: "initial_reads still_session" by (simp add: still_session_def)
  have c: "get_message_container (initial_nodes still_session) \<noteq> None"
    by (simp add: still_session_def get_message_container_def)
  have p: "(\<lambda>i. probe (ticks still_session i)) = (\<lambda>i. Sample 1000 1000 0)"
    by (simp add: still_session_def still_tick_def)
  have u: "[0..<3] = [0, 1, 2]" by code_simp
  have "stall_count (map (\<lambda>i. probe (ticks still_session i)) [0..<3]) = 3 \<and>
        Lost \<notin> set (map (\<lambda>i. probe (ticks still_session i)) [0..<3])"
    unfolding p u by (simp add: stall_count_def)
  then have ex: "\<exists>k\<le>nat 100.
      stall_count (map (\<lambda>i. probe (ticks still_session i)) [0..<k]) = 3 \<and>
      Lost \<notin> set (map (\<lambda>i. probe (ticks still_session i)) [0..<k])"
    by (intro exI [of _ 3]) simp
  from scroll_until_date_result [OF h, of 100 False empty_folder] c ex h
  show ?thesis by simp
qed

subsection \<open>C3: a second pass over the same images\<close>




subsection \<open>C4: the ledger is written after the download\<close>



subsection \<open>C5: the dimension rule\<close>

text \<open>
  Claim C5, as amended. The dimension rule rejects a candidate exactly when width and
  height are both declared and either the width is an integer below 50, or the width is an
  integer and the height is an integer below 50. When both are integers this is: at least
  one of them is below 50; 20 by 20 and 200 by 10 are rejected. A candidate that lacks a
  declared width or height is not rejected by this rule, and a rejected candidate leaves
  the state of the pass as it was.
\<close>

theorem dimension_rule:
  "(small_image i \<longleftrightarrow>
      declared (width i) \<and> declared (height i) \<and>
      (\<exists>a. declared_int (width i) = Some a \<and>
           (a < 50 \<or> (\<exists>b. declared_int (height i) = Some b \<and> b < 50)))) \<and>
   (declared_int (width i) = Some a \<and> declared_int (height i) = Some b \<longrightarrow>
      (small_image i \<longleftrightarrow> a < 50 \<or> b < 50)) \<and>
   (\<not> declared (width i) \<or> \<not> declared (height i) \<longrightarrow> \<not> small_image i) \<and>
   small_image (sized ''20'' ''20'') \<and>
   small_image (sized ''200'' ''10'') \<and>
   (small_image i \<longrightarrow> process_image e (idx, i) st = st)"
proof (intro conjI impI)
  show "small_image i \<longleftrightarrow>
      declared (width i) \<and> declared (height i) \<and>
      (\<exists>a. declared_int (width i) = Some a \<and>
           (a < 50 \<or> (\<exists>b. declared_int (height i) = Some b \<and> b < 50)))"
    by (cases "width i"; cases "height i")
      (auto simp: small_image_def declared_def declared_int_def split: option.splits)
next
  assume "declared_int (width i) = Some a \<and> declared_int (height i) = Some b"
  then show "small_image i \<longleftrightarrow> a < 50 \<or> b < 50"
    using py_int_empty
    by (cases "width i"; cases "height i") (auto simp: small_image_def declared_int_def)
next
  assume "\<not> declared (width i) \<or> \<not> declared (height i)"
  then show "\<not> small_image i"
    by (auto simp: small_image_def declared_def split: option.splits)
next
  show "small_image (sized ''20'' ''20'')" by code_simp
next
  show "small_image (sized ''200'' ''10'')" by code_simp
next
  assume "small_image i"
  then show "process_image e (idx, i) st = st" by (intro process_image_skip) simp
qed

text \<open>
  64 by 48 is rejected, and the pass state is unchanged; an image without dimensions is not
  rejected.
\<close>

theorem dimension_rule_witness:
  "declared_int (width (sized ''64'' ''48'')) = Some 64 \<and>
   declared_int (height (sized ''64'' ''48'')) = Some 48 \<and>
   small_image (sized ''64'' ''48'') \<and>
   \<not> declared (width (picture ''https://cdn.example/a.jpg'')) \<and>
   \<not> small_image (picture ''https://cdn.example/a.jpg'') \<and>
   process_image online (0, sized ''64'' ''48'')
     \<lparr>downloaded_hashes = {}, download_count = 0, store = empty_folder\<rparr> =
     \<lparr>downloaded_hashes = {}, download_count = 0, store = empty_folder\<rparr>"
proof -
  let ?st = "\<lparr>downloaded_hashes = {}, download_count = 0, store = empty_folder\<rparr>"
  have p: "declared_int (width (sized ''64'' ''48'')) = Some 64 \<and>
      declared_int (height (sized ''64'' ''48'')) = Some 48" by code_simp
  have n: "\<not> declared (width (picture ''https://cdn.example/a.jpg''))"
    by (simp add: picture_def declared_def)
  note t = dimension_rule [of "sized ''64'' ''48''" 64 48 online 0 ?st]
  note u = dimension_rule [of "picture ''https://cdn.example/a.jpg''" 0 0 online 0 ?st]
  have "small_image (sized ''64'' ''48'') \<longleftrightarrow> (64::int) < 50 \<or> (48::int) < 50"
    by (rule t [THEN conjunct2, THEN conjunct1, THEN mp, OF p])
  then have sm: "small_image (sized ''64'' ''48'')" by simp
  have same: "process_image online (0, sized ''64'' ''48'') ?st = ?st"
    by (rule t [THEN conjunct2, THEN conjunct2, THEN conjunct2, THEN conjunct2,
          THEN conjunct2, THEN mp, OF sm])
  have big: "\<not> small_image (picture ''https://cdn.example/a.jpg'')"
    by (rule u [THEN conjunct2, THEN conjunct2, THEN conjunct1, THEN mp, OF disjI1 [OF n]])
  show ?thesis
    by (intro conjI p [THEN conjunct1] p [THEN conjunct2] sm n big same)
qed

text \<open>
  The claim as stated fails: with width \<^verbatim>\<open>abc\<close> and height 20 both dimensions are declared
  and the height is below 50, yet \<^verbatim>\<open>int(width)\<close> raises, the error is swallowed, and the
  candidate is not rejected but downloaded.
\<close>

theorem small_height_not_rejected:
  "declared (width (sized ''abc'' ''20'')) \<and> declared (height (sized ''abc'' ''20'')) \<and>
   declared_int (height (sized ''abc'' ''20'')) = Some 20 \<and>
   \<not> small_image (sized ''abc'' ''20'') \<and>
   fst (download_loaded_images online [sized ''abc'' ''20''] empty_folder) = 1"
  by code_simp

subsection \<open>C6: three images, one already in the ledger\<close>




subsection \<open>C7: which source addresses are accepted\<close>

text \<open>
  Claim C7, as amended. A candidate is accepted for further processing exactly when its
  source address is present, contains \<^verbatim>\<open>http\<close> somewhere (not necessarily at its start) and
  contains neither \<^verbatim>\<open>blob:\<close> nor \<^verbatim>\<open>data:\<close>; so every \<^verbatim>\<open>data:\<close> or \<^verbatim>\<open>blob:\<close> reference and
  every missing source is rejected. Every address a pass requests belongs to an accepted
  candidate of the document.
\<close>

theorem accepted_source_rule:
  "(accepted_source i \<longleftrightarrow>
      (\<exists>s. src i = Some s \<and> sublist ''http'' s \<and> \<not> sublist ''blob:'' s \<and> \<not> sublist ''data:'' s)) \<and>
   (\<exists>us. fetched (snd (download_loaded_images e doc w)) = fetched w @ us \<and>
      (\<forall>u\<in>set us. \<exists>i\<in>set doc. src i = Some u \<and> accepted_source i))"
proof
  show "accepted_source i \<longleftrightarrow>
      (\<exists>s. src i = Some s \<and> sublist ''http'' s \<and> \<not> sublist ''blob:'' s \<and> \<not> sublist ''data:'' s)"
    by (cases "src i") (auto simp: accepted_source_def matches_xpath_def invalid_src_def)
next
  let ?ps = "enumerate 0 (find_elements_img doc)"
  let ?st0 = "\<lparr>downloaded_hashes = set (ledger_lines w), download_count = 0, store = w\<rparr>"
  from harvest_loop_fetched [of e ?ps ?st0] obtain us where
    us: "fetched (store (harvest_loop e ?ps ?st0)) = fetched w @ us"
        "\<forall>u\<in>set us. \<exists>p\<in>set ?ps. src (snd p) = Some u \<and> \<not> invalid_src (snd p)"
    by auto
  have "\<exists>i\<in>set doc. src i = Some u \<and> accepted_source i" if "u \<in> set us" for u
  proof -
    from us(2) that obtain p where p: "p \<in> set ?ps" "src (snd p) = Some u"
      "\<not> invalid_src (snd p)" by blast
    from p(1) have "snd p \<in> set (find_elements_img doc)" by (rule enumerate_member)
    then have "snd p \<in> set doc" "matches_xpath (snd p)"
      by (simp_all add: find_elements_img_def)
    with p show ?thesis by (auto simp: accepted_source_def)
  qed
  with us(1) show "\<exists>us. fetched (snd (download_loaded_images e doc w)) = fetched w @ us \<and>
      (\<forall>u\<in>set us. \<exists>i\<in>set doc. src i = Some u \<and> accepted_source i)"
    by (intro exI [of _ us]) (simp add: download_loaded_images_def Let_def)
qed

text \<open>
  A blob reference, a data reference and a missing source are rejected, an https address is
  accepted, and a pass over the blob reference requests nothing.
\<close>

theorem accepted_source_rule_witness:
  "\<not> accepted_source (picture ''blob:https://www.messenger.com/5f1c'') \<and>
   \<not> accepted_source (picture ''data:image/png;base64,http'') \<and>
   \<not> accepted_source \<lparr>src = None, width = None, height = None\<rparr> \<and>
   accepted_source (picture ''https://cdn.example/a.jpg'') \<and>
   (\<exists>us. fetched (snd (download_loaded_images online
              [picture ''blob:https://www.messenger.com/5f1c''] empty_folder)) =
            fetched empty_folder @ us \<and> us = [])"
proof -
  let ?b = "''blob:https://www.messenger.com/5f1c''"
  let ?d = "''data:image/png;base64,http''"
  let ?a = "''https://cdn.example/a.jpg''"
  have b: "sublist ''blob:'' ?b" by code_simp
  have d: "sublist ''data:'' ?d" by code_simp
  have a: "sublist ''http'' ?a" "\<not> sublist ''blob:'' ?a" "\<not> sublist ''data:'' ?a"
    by code_simp+
  have nb: "\<not> accepted_source (picture ?b)"
    using accepted_source_rule [of "picture ?b" online "[]" empty_folder] b
    by (simp add: picture_def)
  have 1: "\<not> accepted_source (picture ?d)"
    using accepted_source_rule [of "picture ?d" online "[]" empty_folder] d
    by (simp add: picture_def)
  have 2: "\<not> accepted_source \<lparr>src = None, width = None, height = None\<rparr>"
    using accepted_source_rule [of "\<lparr>src = None, width = None, height = None\<rparr>" online "[]"
        empty_folder]
    by simp
  have 3: "accepted_source (picture ?a)"
    using accepted_source_rule [of "picture ?a" online "[]" empty_folder] a
    by (simp add: picture_def)
  from accepted_source_rule [of "picture ?b" online "[picture ?b]" empty_folder]
  obtain us where us: "fetched (snd (download_loaded_images online [picture ?b] empty_folder)) =
      fetched empty_folder @ us"
    "\<forall>u\<in>set us. \<exists>i\<in>set [picture ?b]. src i = Some u \<and> accepted_source i"
    by blast
  from us(2) nb have "us = []" by (cases us) auto
  with us(1) nb 1 2 3 show ?thesis by blast
qed

text \<open>
  The claim as stated fails: this address does not begin with \<^verbatim>\<open>http\<close>, yet it is accepted
  and requested, because \<^verbatim>\<open>http\<close> occurs inside it.
\<close>

theorem accepted_without_scheme:
  "accepted_source (picture ''file:///tmp/http.png'') \<and>
   \<not> prefix ''http'' ''file:///tmp/http.png'' \<and>
   fetched (snd (download_loaded_images online [picture ''file:///tmp/http.png''] empty_folder)) =
     [''file:///tmp/http.png'']"
  by code_simp

subsection \<open>C8: the choice of the container\<close>

text \<open>
  Claim C8. \<^verbatim>\<open>get_message_container\<close> returns the first node that overflows; when no node
  overflows it returns the first node; on the empty list it returns \<^verbatim>\<open>None\<close>.
\<close>

theorem container_choice:
  "(overflows c \<and> (\<forall>x\<in>set pre. \<not> overflows x) \<longrightarrow>
      get_message_container (pre @ c # post) = Some c) \<and>
   ((\<forall>x\<in>set (d # ds). \<not> overflows x) \<longrightarrow> get_message_container (d # ds) = Some d) \<and>
   get_message_container [] = None"
proof (intro conjI impI)
  assume a: "overflows c \<and> (\<forall>x\<in>set pre. \<not> overflows x)"
  then have "find overflows (pre @ c # post) = Some c"
    by (induction pre) auto
  then show "get_message_container (pre @ c # post) = Some c"
    by (simp add: get_message_container_def scan_containers_find)
next
  assume "\<forall>x\<in>set (d # ds). \<not> overflows x"
  then have "find overflows (d # ds) = None"
    by (simp add: find_None_iff)
  then show "get_message_container (d # ds) = Some d"
    by (simp add: get_message_container_def scan_containers_find)
next
  show "get_message_container [] = None"
    by (simp add: get_message_container_def)
qed

text \<open>
  Four nodes of which the third is the first to overflow; and two nodes that do not.
\<close>

theorem container_choice_witness:
  "overflows \<lparr>scroll_height = Some 1000, client_height = Some 600\<rparr> \<and>
   \<not> overflows \<lparr>scroll_height = Some 400, client_height = Some 400\<rparr> \<and>
   \<not> overflows \<lparr>scroll_height = None, client_height = Some 10\<rparr> \<and>
   get_message_container
     [\<lparr>scroll_height = Some 400, client_height = Some 400\<rparr>,
      \<lparr>scroll_height = None, client_height = Some 10\<rparr>,
      \<lparr>scroll_height = Some 1000, client_height = Some 600\<rparr>,
      \<lparr>scroll_height = Some 900, client_height = Some 100\<rparr>] =
     Some \<lparr>scroll_height = Some 1000, client_height = Some 600\<rparr> \<and>
   get_message_container
     [\<lparr>scroll_height = Some 400, client_height = Some 400\<rparr>,
      \<lparr>scroll_height = None, client_height = Some 10\<rparr>] =
     Some \<lparr>scroll_height = Some 400, client_height = Some 400\<rparr>"
proof -
  let ?a = "\<lparr>scroll_height = Some 400, client_height = Some (400::int)\<rparr>"
  let ?b = "\<lparr>scroll_height = None, client_height = Some (10::int)\<rparr>"
  let ?c = "\<lparr>scroll_height = Some 1000, client_height = Some (600::int)\<rparr>"
  let ?d = "\<lparr>scroll_height = Some 900, client_height = Some (100::int)\<rparr>"
  have o: "overflows ?c" "\<not> overflows ?a" "\<not> overflows ?b"
    by (simp_all add: overflows_def)
  from container_choice [of ?c "[?a, ?b]" "[?d]" ?a "[?b]"] o
  show ?thesis by simp
qed

subsection \<open>C9: the file extension\<close>

text \<open>
  Claim C9. The file a successful download writes is named with the extension \<^verbatim>\<open>png\<close> if the
  lowercased address contains \<^verbatim>\<open>.png\<close>, else \<^verbatim>\<open>gif\<close> if it contains \<^verbatim>\<open>.gif\<close>, else \<^verbatim>\<open>jpg\<close>.
\<close>

theorem extension_choice:
  assumes "accepted_source i" "\<not> small_image i" "src i = Some s"
    "get_image_hash e s \<notin> downloaded_hashes st"
    "requests_get e s = Response 200 body" "writable e (image_filename e idx s)"
  shows "files (store (process_image e (idx, i) st)) =
     AList.update
       (''img_'' @ str_nat (time_ms e idx) @ ''_'' @ str_nat idx @ ''.'' @
          (if sublist ''.png'' (lower s) then ''png''
           else if sublist ''.gif'' (lower s) then ''gif''
           else ''jpg''))
       body (files (store st))"
proof -
  have "\<not> invalid_src i" using assms(1) by (simp add: accepted_source_def)
  from process_image_downloads [OF this assms(2-6)] show ?thesis
    by (simp add: image_filename_def extension_def)
qed

text \<open>
  An address with \<^verbatim>\<open>.GIF\<close> in capitals gets the extension \<^verbatim>\<open>gif\<close>.
\<close>

theorem extension_choice_witness:
  "accepted_source (picture ''https://cdn.example/Anim.GIF?x=1'') \<and>
   files (store (process_image online (4, picture ''https://cdn.example/Anim.GIF?x=1'')
       \<lparr>downloaded_hashes = {}, download_count = 0, store = empty_folder\<rparr>)) =
     [(''img_7_4.gif'', ''bytes'')]"
proof -
  let ?i = "picture ''https://cdn.example/Anim.GIF?x=1''"
  let ?st = "\<lparr>downloaded_hashes = {}, download_count = 0, store = empty_folder\<rparr>"
  have a: "accepted_source ?i" by code_simp
  have b: "\<not> small_image ?i" by code_simp
  have c: "src ?i = Some ''https://cdn.example/Anim.GIF?x=1''" by (simp add: picture_def)
  have d: "get_image_hash online ''https://cdn.example/Anim.GIF?x=1'' \<notin> downloaded_hashes ?st"
    by simp
  have f: "requests_get online ''https://cdn.example/Anim.GIF?x=1'' = Response 200 ''bytes''"
    by (simp add: online_def)
  have g: "writable online (image_filename online 4 ''https://cdn.example/Anim.GIF?x=1'')"
    by (simp add: online_def)
  have n: "''img_'' @ str_nat (time_ms online 4) @ ''_'' @ str_nat 4 @ ''.'' @
          (if sublist ''.png'' (lower ''https://cdn.example/Anim.GIF?x=1'') then ''png''
           else if sublist ''.gif'' (lower ''https://cdn.example/Anim.GIF?x=1'') then ''gif''
           else ''jpg'') = ''img_7_4.gif''"
    by code_simp
  from extension_choice [OF a b c d f g] a show ?thesis
    unfolding n by (simp add: empty_folder_def)
qed

subsection \<open>C10: dimensions that are not integers\<close>

text \<open>
  Claim C10, as amended. When the declared width or height is present but does not parse as
  an integer, the candidate is rejected by the dimension rule only in one case: its width
  is an integer below 50 and its height is not empty (the height is then never parsed).
  In every other case the error of the parse, if one is raised, is swallowed, the
  candidate is not rejected by the dimension rule, and an accepted candidate whose hash is
  new goes on to be hashed and requested.
\<close>

theorem unparseable_dimension:
  assumes "(\<exists>w. width i = Some w \<and> py_int w = None) \<or> (\<exists>h. height i = Some h \<and> py_int h = None)"
  shows "(small_image i \<longleftrightarrow>
            (\<exists>a. declared_int (width i) = Some a \<and> a < 50) \<and> declared (height i)) \<and>
         (\<not> small_image i \<and> accepted_source i \<and> src i = Some s \<and>
          get_image_hash e s \<notin> downloaded_hashes st \<longrightarrow>
            fetched (store (process_image e (idx, i) st)) = fetched (store st) @ [s])"
proof
  show "small_image i \<longleftrightarrow>
            (\<exists>a. declared_int (width i) = Some a \<and> a < 50) \<and> declared (height i)"
    using assms py_int_empty
    by (cases "width i"; cases "height i")
      (auto simp: small_image_def declared_def declared_int_def split: option.splits)
  show "\<not> small_image i \<and> accepted_source i \<and> src i = Some s \<and>
          get_image_hash e s \<notin> downloaded_hashes st \<longrightarrow>
            fetched (store (process_image e (idx, i) st)) = fetched (store st) @ [s]"
    by (simp add: accepted_source_def process_image_attempt Let_def download_image_fetched)
qed

text \<open>
  Width 640 and a height that does not parse: not rejected, and requested. Width 20 and an
  empty height: not rejected either.
\<close>

theorem unparseable_dimension_witness:
  "height (sized ''640'' ''4 8 0'') = Some ''4 8 0'' \<and> py_int ''4 8 0'' = None \<and>
   \<not> small_image (sized ''640'' ''4 8 0'') \<and>
   fetched (store (process_image online (0, sized ''640'' ''4 8 0'')
      \<lparr>downloaded_hashes = {}, download_count = 0, store = empty_folder\<rparr>)) =
     [''https://cdn.example/p.jpg''] \<and>
   height (sized ''20'' []) = Some [] \<and> py_int [] = None \<and> \<not> small_image (sized ''20'' [])"
proof -
  let ?i = "sized ''640'' ''4 8 0''"
  let ?j = "sized ''20'' []"
  let ?st = "\<lparr>downloaded_hashes = {}, download_count = 0, store = empty_folder\<rparr>"
  have h: "height ?i = Some ''4 8 0''" by (simp add: sized_def)
  have p: "py_int ''4 8 0'' = None" by code_simp
  have q: "declared_int (width ?i) = Some 640" by code_simp
  have a1: "(\<exists>w. width ?i = Some w \<and> py_int w = None) \<or> (\<exists>h. height ?i = Some h \<and> py_int h = None)"
    using h p by simp
  have acc: "accepted_source ?i" by code_simp
  have s: "src ?i = Some ''https://cdn.example/p.jpg''" by (simp add: sized_def)
  have hj: "height ?j = Some []" by (simp add: sized_def)
  have a2: "(\<exists>w. width ?j = Some w \<and> py_int w = None) \<or> (\<exists>h. height ?j = Some h \<and> py_int h = None)"
    using hj py_int_empty by simp
  have dj: "\<not> declared (height ?j)" by (simp add: sized_def declared_def)
  from unparseable_dimension [OF a1, of "''https://cdn.example/p.jpg''" online ?st 0] q
  have big: "\<not> small_image ?i" by simp
  from unparseable_dimension [OF a1, of "''https://cdn.example/p.jpg''" online ?st 0] big acc s
  have f: "fetched (store (process_image online (0, ?i) ?st)) = [''https://cdn.example/p.jpg'']"
    by (simp add: empty_folder_def)
  from unparseable_dimension [OF a2, of "''https://cdn.example/p.jpg''" online ?st 0] dj
  have bj: "\<not> small_image ?j" by simp
  from h p big f hj py_int_empty bj show ?thesis by blast
qed

text \<open>
  The claim as stated fails: with width 20 the test \<^verbatim>\<open>int(width) < 50\<close> is already true, the
  height is never parsed, and the candidate is rejected although its height is present and
  does not parse.
\<close>

theorem unparseable_height_rejected:
  "height (sized ''20'' ''abc'') = Some ''abc'' \<and> py_int ''abc'' = None \<and>
   small_image (sized ''20'' ''abc'') \<and>
   download_loaded_images online [sized ''20'' ''abc''] empty_folder = (0, empty_folder)"
  by code_simp

end
